theory Spec2Isabelle
  imports Main
begin

section \<open>Python values used by the program\<close>

text \<open>
  Strings are character lists.  The exceptions that the modelled code can raise and
  that some caller catches are values of \<open>py_error\<close>; a fallible operation returns
  \<open>py_error + 'a\<close> with \<open>Inl\<close> for the raised exception.
\<close>

datatype py_error = TypeError | ValueError | ReError | IntegrityError | RuntimeError | ConnectionError | OtherError

text \<open>Python truthiness of an optional string: \<open>None\<close> and \<open>""\<close> are falsy.\<close>

fun or_else :: "string option \<Rightarrow> string \<Rightarrow> string" where
  "or_else None d = d"
| "or_else (Some s) d = (if s = [] then d else s)"

section \<open>The dedup store (db.py)\<close>

text \<open>
  The table \<open>sent_items\<close> of \<open>init_db\<close>: an autoincremented id, the feed id, the item
  URL (declared \<open>UNIQUE\<close>) and the insertion time.  \<open>seq\<close> is the counter behind
  \<open>AUTOINCREMENT\<close>.  The value of \<open>CURRENT_TIMESTAMP\<close> is passed in by the caller.
\<close>

record sent_item =
  row_id :: nat
  flux_id :: string
  item_url :: string
  sent_at :: int

record sent_items_db =
  rows :: "sent_item list"
  seq :: nat

definition init_db :: sent_items_db where
  "init_db = \<lparr>rows = [], seq = 0\<rparr>"

text \<open>
  The \<open>INSERT\<close> statement of \<open>mark_as_sent\<close>.  The \<open>UNIQUE\<close> constraint on
  \<open>item_url\<close> makes it raise \<open>sqlite3.IntegrityError\<close> when a row with that URL exists;
  nothing is written then.
\<close>

definition insert_sent_item :: "string \<Rightarrow> string \<Rightarrow> int \<Rightarrow> sent_items_db \<Rightarrow> py_error + sent_items_db" where
  "insert_sent_item fid url ts db =
     (if url \<in> set (map item_url (rows db)) then Inl IntegrityError
      else Inr \<lparr>rows = rows db @ [\<lparr>row_id = Suc (seq db), flux_id = fid, item_url = url, sent_at = ts\<rparr>],
                seq = Suc (seq db)\<rparr>)"

text \<open>\<open>mark_as_sent\<close>: the insert, with \<open>IntegrityError\<close> caught and dropped.\<close>

definition mark_as_sent :: "string \<Rightarrow> string \<Rightarrow> int \<Rightarrow> sent_items_db \<Rightarrow> sent_items_db" where
  "mark_as_sent fid url ts db =
     (case insert_sent_item fid url ts db of
        Inl e \<Rightarrow> db
      | Inr db' \<Rightarrow> db')"

text \<open>\<open>already_sent\<close>: \<open>SELECT 1 FROM sent_items WHERE item_url = ?\<close> finds a row.\<close>

definition already_sent :: "string \<Rightarrow> sent_items_db \<Rightarrow> bool" where
  "already_sent url db = (url \<in> set (map item_url (rows db)))"

text \<open>The table's \<open>UNIQUE\<close> constraint, as a property of a store.\<close>

definition unique_item_urls :: "sent_items_db \<Rightarrow> bool" where
  "unique_item_urls db = distinct (map item_url (rows db))"

section \<open>Python string operations\<close>

text \<open>\<open>sub in s\<close> on strings.\<close>

fun str_in :: "string \<Rightarrow> string \<Rightarrow> bool" where
  "str_in sub [] = (sub = [])"
| "str_in sub (c # cs) = (take (length sub) (c # cs) = sub \<or> str_in sub cs)"

text \<open>
  \<open>s.split(sep)\<close>: the pieces between the non-overlapping occurrences of \<open>sep\<close>,
  found from the left; \<open>cur\<close> is the piece being read.  Python raises \<open>ValueError\<close>
  for an empty separator; every call of the program passes a non-empty literal, and
  here an empty separator splits nothing.
\<close>

fun split_from :: "string \<Rightarrow> string \<Rightarrow> string \<Rightarrow> string list" where
  "split_from sep cur [] = [cur]"
| "split_from sep cur (c # cs) =
     (if sep \<noteq> [] \<and> take (length sep) (c # cs) = sep
      then cur # split_from sep [] (drop (length sep) (c # cs))
      else split_from sep (cur @ [c]) cs)"

definition split_str :: "string \<Rightarrow> string \<Rightarrow> string list" where
  "split_str sep s = split_from sep [] s"

text \<open>\<open>s.rstrip(cs)\<close>: drops the trailing characters that occur in \<open>cs\<close>.\<close>

definition rstrip_chars :: "string \<Rightarrow> string \<Rightarrow> string" where
  "rstrip_chars cs s = rev (dropWhile (\<lambda>c. c \<in> set cs) (rev s))"

section \<open>Settings (app/core/config.py)\<close>

record settings =
  rsshub_base :: string
  default_check_interval :: int

definition default_settings :: settings where
  "default_settings = \<lparr>rsshub_base = ''https://rsshub.app'', default_check_interval = 300\<rparr>"

section \<open>The source resolver (app/utils/url\_resolver.py)\<close>

text \<open>
  The URL is optional, as \<open>FluxBase.rssUrl\<close> is.  On \<open>None\<close> the first substring
  test of each platform resolver raises \<open>TypeError\<close>.  \<open>segment\<close> is the expression
  \<open>url.split(marker)[-1].split("/")[0].split("?")[0]\<close>.
\<close>

definition segment :: "string \<Rightarrow> string \<Rightarrow> string" where
  "segment marker url = hd (split_str ''?'' (hd (split_str ''/'' (last (split_str marker url)))))"

definition resolve_youtube :: "string option \<Rightarrow> py_error + string" where
  "resolve_youtube u =
     (case u of
        None \<Rightarrow> Inl TypeError
      | Some url \<Rightarrow>
          Inr (if str_in ''youtube.com/channel/'' url then
                 ''https://www.youtube.com/feeds/videos.xml?channel_id='' @ segment ''youtube.com/channel/'' url
               else if str_in ''youtube.com/@'' url then
                 ''https://www.youtube.com/feeds/videos.xml?user='' @ segment ''youtube.com/@'' url
               else if str_in ''youtube.com/user/'' url then
                 ''https://www.youtube.com/feeds/videos.xml?user='' @ segment ''youtube.com/user/'' url
               else if str_in ''youtube.com/c/'' url then
                 ''https://www.youtube.com/feeds/videos.xml?user='' @ segment ''youtube.com/c/'' url
               else if str_in ''list='' url then
                 ''https://www.youtube.com/feeds/videos.xml?playlist_id=''
                   @ hd (split_str ''&'' (last (split_str ''list='' url)))
               else url))"

definition resolve_facebook :: "settings \<Rightarrow> string option \<Rightarrow> py_error + string" where
  "resolve_facebook st u =
     (case u of
        None \<Rightarrow> Inl TypeError
      | Some url \<Rightarrow>
          Inr (if str_in ''facebook.com/'' url
               then rstrip_chars ''/'' (rsshub_base st) @ ''/facebook/page/'' @ segment ''facebook.com/'' url
               else url))"

definition resolve_instagram :: "settings \<Rightarrow> string option \<Rightarrow> py_error + string" where
  "resolve_instagram st u =
     (case u of
        None \<Rightarrow> Inl TypeError
      | Some url \<Rightarrow>
          Inr (if str_in ''instagram.com/'' url
               then rstrip_chars ''/'' (rsshub_base st) @ ''/instagram/user/'' @ segment ''instagram.com/'' url
               else url))"

definition resolve_tiktok :: "settings \<Rightarrow> string option \<Rightarrow> py_error + string" where
  "resolve_tiktok st u =
     (case u of
        None \<Rightarrow> Inl TypeError
      | Some url \<Rightarrow>
          Inr (if str_in ''tiktok.com/@'' url
               then rstrip_chars ''/'' (rsshub_base st) @ ''/tiktok/user/'' @ segment ''tiktok.com/@'' url
               else url))"

text \<open>The body of the \<open>try\<close> block of \<open>URLResolver.resolve\<close>.\<close>

definition resolve_body :: "settings \<Rightarrow> string option \<Rightarrow> string \<Rightarrow> py_error + string option" where
  "resolve_body st url source_type =
     (if source_type = ''youtube'' then map_sum id Some (resolve_youtube url)
      else if source_type = ''facebook'' then map_sum id Some (resolve_facebook st url)
      else if source_type = ''instagram'' then map_sum id Some (resolve_instagram st url)
      else if source_type = ''tiktok'' then map_sum id Some (resolve_tiktok st url)
      else Inr url)"

text \<open>\<open>URLResolver.resolve\<close>: \<open>except Exception\<close> logs and returns the input.\<close>

definition resolve :: "settings \<Rightarrow> string option \<Rightarrow> string \<Rightarrow> string option" where
  "resolve st url source_type =
     (case resolve_body st url source_type of
        Inl e \<Rightarrow> url
      | Inr r \<Rightarrow> r)"

section \<open>Text helpers of the filter chain (rss\_checker.py)\<close>

text \<open>
  \<open>str.lower\<close> and \<open>str.strip\<close> on characters in the ASCII range: the letters
  \<open>A\<close> to \<open>Z\<close> are lowered and the other characters kept; the white space is the
  characters 9 to 13 and 28 to 32.
\<close>

definition lower_char :: "char \<Rightarrow> char" where
  "lower_char c =
     (case map_of (zip ''ABCDEFGHIJKLMNOPQRSTUVWXYZ'' ''abcdefghijklmnopqrstuvwxyz'') c of
        None \<Rightarrow> c
      | Some d \<Rightarrow> d)"

definition lower :: "string \<Rightarrow> string" where
  "lower s = map lower_char s"

definition is_space :: "char \<Rightarrow> bool" where
  "is_space c = ((9 \<le> (of_char c :: nat) \<and> (of_char c :: nat) \<le> 13) \<or> (28 \<le> (of_char c :: nat) \<and> (of_char c :: nat) \<le> 32))"

definition strip :: "string \<Rightarrow> string" where
  "strip s = rev (dropWhile is_space (rev (dropWhile is_space s)))"

text \<open>\<open>sep.join(parts)\<close>, and \<open>s.replace(old, new)\<close> for a non-empty \<open>old\<close>.\<close>

fun join_str :: "string \<Rightarrow> string list \<Rightarrow> string" where
  "join_str sep [] = []"
| "join_str sep [x] = x"
| "join_str sep (x # y # ys) = x @ sep @ join_str sep (y # ys)"

definition replace_str :: "string \<Rightarrow> string \<Rightarrow> string \<Rightarrow> string" where
  "replace_str old new s = join_str new (split_str old s)"

definition normalize_text :: "string option \<Rightarrow> string" where
  "normalize_text s = strip (or_else s [])"

definition match_keywords :: "string \<Rightarrow> string list \<Rightarrow> bool" where
  "match_keywords text_in keywords =
     (if keywords = [] then True
      else list_ex (\<lambda>kw. str_in (lower kw) (lower text_in)) keywords)"

text \<open>
  The regular-expression engine is Python's \<open>re\<close> module.  It is a parameter:
  \<open>search pat\<close> is \<open>None\<close> when \<open>pat\<close> does not compile (\<open>re.search\<close> raises
  \<open>re.error\<close>), and otherwise the predicate \<open>re.search(pat, _, flags=re.IGNORECASE)\<close>.
\<close>

type_synonym re_engine = "string \<Rightarrow> (string \<Rightarrow> bool) option"

text \<open>The loop of \<open>match_regex\<close> inside its \<open>try\<close>.\<close>

fun match_regex_loop :: "re_engine \<Rightarrow> string \<Rightarrow> string list \<Rightarrow> py_error + bool" where
  "match_regex_loop search text_in [] = Inr False"
| "match_regex_loop search text_in (pat # pats) =
     (case search pat of
        None \<Rightarrow> Inl ReError
      | Some m \<Rightarrow> if m text_in then Inr True else match_regex_loop search text_in pats)"

text \<open>\<open>match_regex\<close> of rss\_checker.py, with its parameter \<open>expect\<close>.\<close>

definition match_regex :: "re_engine \<Rightarrow> string \<Rightarrow> string list \<Rightarrow> bool \<Rightarrow> bool" where
  "match_regex search text_in patterns expect =
     (if patterns = [] then (if expect then True else False)
      else (case match_regex_loop search text_in patterns of
              Inl e \<Rightarrow> (if expect then True else False)
            | Inr b \<Rightarrow> b))"

text \<open>\<open>RSSService.match_regex\<close> of rss\_service.py, which has no such parameter.\<close>

definition service_match_regex :: "re_engine \<Rightarrow> string \<Rightarrow> string list \<Rightarrow> bool" where
  "service_match_regex search text_in patterns =
     (if patterns = [] then True
      else (case match_regex_loop search text_in patterns of
              Inl e \<Rightarrow> True
            | Inr b \<Rightarrow> b))"

text \<open>
  \<open>extract_domain\<close>: \<open>re.sub(r"^https?://(www\.)?", "", url).split("/")[0]\<close>.  The
  pattern is fixed, so the substitution is written out.
\<close>

definition strip_prefix :: "string \<Rightarrow> string \<Rightarrow> string option" where
  "strip_prefix p s = (if take (length p) s = p then Some (drop (length p) s) else None)"

definition extract_domain :: "string \<Rightarrow> string" where
  "extract_domain url =
     (let after_scheme = (case strip_prefix ''http://'' url of
                            Some r \<Rightarrow> Some r
                          | None \<Rightarrow> strip_prefix ''https://'' url);
          rest = (case after_scheme of
                    None \<Rightarrow> url
                  | Some r \<Rightarrow> (case strip_prefix ''www.'' r of Some w \<Rightarrow> w | None \<Rightarrow> r))
      in hd (split_str ''/'' rest))"

definition match_domains :: "string \<Rightarrow> string list \<Rightarrow> string list \<Rightarrow> bool" where
  "match_domains url whitelist blacklist =
     (let domain = extract_domain url in
      if whitelist \<noteq> [] \<and> domain \<notin> set whitelist then False
      else if blacklist \<noteq> [] \<and> domain \<in> set blacklist then False
      else True)"

text \<open>
  \<open>language_filter\<close>.  The French marker \<open>" a "\<close> with a grave accent is written
  as its two UTF-8 bytes.
\<close>

definition markers_fr :: "string list" where
  "markers_fr = ['' le '', '' la '', '' les '', '' de '', '' des '', '' et '',
                 [CHR '' '', CHR 0xC3, CHR 0xA0, CHR '' ''], '' pour '', '' sur '']"

definition markers_en :: "string list" where
  "markers_en = ['' the '', '' and '', '' of '', '' for '', '' on '', '' with '', '' from '']"

definition language_filter :: "string \<Rightarrow> string option \<Rightarrow> bool" where
  "language_filter text_in language =
     (if or_else language [] = [] then True
      else if language = Some ''fr'' then 1 \<le> length (filter (\<lambda>m. str_in m (lower text_in)) markers_fr)
      else if language = Some ''en'' then 1 \<le> length (filter (\<lambda>m. str_in m (lower text_in)) markers_en)
      else True)"

section \<open>Quiet hours\<close>

text \<open>
  \<open>datetime.time\<close> values, ordered as Python orders them: by hour, minute, second
  and microsecond.
\<close>

record time_of_day =
  hour :: nat
  minute :: nat
  second :: nat
  microsecond :: nat

definition time_lt :: "time_of_day \<Rightarrow> time_of_day \<Rightarrow> bool" where
  "time_lt a b =
     (hour a < hour b \<or> (hour a = hour b \<and>
       (minute a < minute b \<or> (minute a = minute b \<and>
         (second a < second b \<or> (second a = second b \<and> microsecond a < microsecond b))))))"

definition time_le :: "time_of_day \<Rightarrow> time_of_day \<Rightarrow> bool" where
  "time_le a b = (time_lt a b \<or> a = b)"

text \<open>
  \<open>datetime.strptime(s, "%H:%M").time()\<close>.  The library matches the whole string
  against \<open>(2[0-3]|[0-1]\d|\d):([0-5]\d|\d)\<close> and raises \<open>ValueError\<close> otherwise:
  one or two digits up to 23, a colon, one or two digits up to 59.
\<close>

definition digit_of :: "char \<Rightarrow> nat option" where
  "digit_of c = (if 48 \<le> (of_char c :: nat) \<and> (of_char c :: nat) \<le> 57 then Some (of_char c - 48) else None)"

fun two_digits :: "nat \<Rightarrow> string \<Rightarrow> nat option" where
  "two_digits bound [a] = digit_of a"
| "two_digits bound [a, b] =
     (case digit_of a of
        None \<Rightarrow> None
      | Some x \<Rightarrow> (case digit_of b of
                     None \<Rightarrow> None
                   | Some y \<Rightarrow> if 10 * x + y \<le> bound then Some (10 * x + y) else None))"
| "two_digits bound s = None"

definition strptime_HM :: "string \<Rightarrow> py_error + time_of_day" where
  "strptime_HM s =
     (case dropWhile (\<lambda>c. c \<noteq> CHR '':'') s of
        [] \<Rightarrow> Inl ValueError
      | colon # m \<Rightarrow>
          (case two_digits 23 (takeWhile (\<lambda>c. c \<noteq> CHR '':'') s) of
             None \<Rightarrow> Inl ValueError
           | Some hh \<Rightarrow>
               (case two_digits 59 m of
                  None \<Rightarrow> Inl ValueError
                | Some mm \<Rightarrow> Inr \<lparr>hour = hh, minute = mm, second = 0, microsecond = 0\<rparr>)))"

text \<open>\<open>within_quiet_hours\<close> (and, line for line, \<open>RSSService.is_in_quiet_hours\<close>).\<close>

definition within_quiet_hours :: "time_of_day \<Rightarrow> string option \<Rightarrow> string option \<Rightarrow> bool" where
  "within_quiet_hours now_t start_s end_s =
     (if or_else start_s [] = [] \<or> or_else end_s [] = [] then False
      else (case strptime_HM (or_else start_s []) of
              Inl e \<Rightarrow> False
            | Inr st \<Rightarrow>
                (case strptime_HM (or_else end_s []) of
                   Inl e \<Rightarrow> False
                 | Inr en \<Rightarrow>
                     if time_lt st en then time_le st now_t \<and> time_le now_t en
                     else time_le st now_t \<or> time_le now_t en)))"

text \<open>
  The microseconds since midnight of a time, and the times a clock can show.
\<close>

definition micros :: "time_of_day \<Rightarrow> nat" where
  "micros t = ((hour t * 60 + minute t) * 60 + second t) * 1000000 + microsecond t"

definition valid_time :: "time_of_day \<Rightarrow> bool" where
  "valid_time t = (hour t < 24 \<and> minute t < 60 \<and> second t < 60 \<and> microsecond t < 1000000)"

text \<open>A configured bound that is present and parses as \<open>HH:MM\<close>.\<close>

definition hhmm :: "string option \<Rightarrow> time_of_day option" where
  "hhmm x =
     (case x of
        None \<Rightarrow> None
      | Some s \<Rightarrow> (case strptime_HM s of Inl e \<Rightarrow> None | Inr t \<Rightarrow> Some t))"

text \<open>
  The quiet-hours predicate in the specification's words: both bounds parse, and the
  time lies in the half-open interval from start to end, which wraps past midnight
  when start is later than end.
\<close>

definition quiet_hours_spec :: "time_of_day \<Rightarrow> string option \<Rightarrow> string option \<Rightarrow> bool" where
  "quiet_hours_spec now_t start_s end_s =
     (case hhmm start_s of
        None \<Rightarrow> False
      | Some st \<Rightarrow>
          (case hhmm end_s of
             None \<Rightarrow> False
           | Some en \<Rightarrow>
               if time_lt en st then time_le st now_t \<or> time_lt now_t en
               else time_le st now_t \<and> time_lt now_t en))"

section \<open>Feed configurations and feed items (models.py, rss\_checker.py)\<close>

text \<open>
  \<open>FluxInDB\<close>, with the fields the modelled code reads or writes.  \<open>ident\<close> is the
  field \<open>id\<close>.  A document of the configuration collection carries the same fields,
  \<open>ident\<close> being its \<open>_id\<close>.
\<close>

record flux =
  ident :: string
  rssUrl :: "string option"
  sourceType :: string
  discordTarget :: string
  interval :: int
  mode :: string
  active :: bool
  allowEmbeds :: bool
  messageTemplate :: "string option"
  mentionUserId :: "string option"
  mentionRoleId :: "string option"
  includeKeywords :: "string list option"
  excludeKeywords :: "string list option"
  regexInclude :: "string list option"
  regexExclude :: "string list option"
  domainWhitelist :: "string list option"
  domainBlacklist :: "string list option"
  language :: "string option"
  maxPerRun :: "int option"
  quietHoursStart :: "string option"
  quietHoursEnd :: "string option"
  lastItem :: "string option"
  lastPubDate :: "int option"
  totalSent :: int

text \<open>
  A parsed feed entry.  \<open>published_parsed\<close> and \<open>updated_parsed\<close> hold the value of
  \<open>int(time.mktime(_))\<close> on the parsed date, when the entry has that date.
\<close>

record entry =
  title :: "string option"
  link :: "string option"
  entry_id :: "string option"
  summary :: "string option"
  description :: "string option"
  published_parsed :: "int option"
  updated_parsed :: "int option"

text \<open>An optional list read as \<open>xs or []\<close>; \<open>None\<close> and the empty list are falsy.\<close>

fun list_or :: "'a list option \<Rightarrow> 'a list" where
  "list_or None = []"
| "list_or (Some xs) = xs"

definition getItemLinkOrGuid :: "entry \<Rightarrow> string" where
  "getItemLinkOrGuid e = or_else (link e) (or_else (entry_id e) [])"

definition getItemDate :: "entry \<Rightarrow> int option" where
  "getItemDate e =
     (case published_parsed e of
        Some d \<Rightarrow> Some d
      | None \<Rightarrow> updated_parsed e)"

text \<open>
  \<open>_sort_items\<close>: \<open>sorted(entries, key=key, reverse=True)\<close> with the key
  \<open>getItemDate(e) or 0\<close>.  Python's sort is stable, also in reverse.
\<close>

definition sort_date :: "entry \<Rightarrow> int" where
  "sort_date e = (case getItemDate e of None \<Rightarrow> 0 | Some d \<Rightarrow> d)"

definition sort_items :: "entry list \<Rightarrow> entry list" where
  "sort_items entries = sort_key (\<lambda>e. - sort_date e) entries"

section \<open>One check cycle (rss\_checker.check\_flux)\<close>

text \<open>
  What the cycle takes from outside: the clock reading \<open>datetime.now()\<close>, the
  regular-expression engine, the messaging sink, the configuration collection's
  \<open>update_one\<close> (which may raise) and the database clock.  The sink, the update and
  the database clock are asked once per send attempt, and may answer differently at
  each; they are indexed by the number of earlier attempts of the cycle.
\<close>

record discord_message =
  target_id :: string
  content :: string
  allow_embeds :: bool
  send_mode :: string

datatype send_result = Delivered | Raised py_error

record env =
  now :: time_of_day
  re_search :: re_engine
  send_to_discord :: "nat \<Rightarrow> discord_message \<Rightarrow> send_result"
  update_one_raises :: "nat \<Rightarrow> bool"
  current_timestamp :: "nat \<Rightarrow> int"

text \<open>
  The state of a cycle: the local variables \<open>sent_this_run\<close> and \<open>seen_items\<close>, the
  dedup store, the configuration collection, the messages the sink has delivered (each
  with its entry) and the number of send attempts made.
\<close>

record cycle =
  sent_this_run :: int
  seen_items :: "string set"
  store :: sent_items_db
  coll :: "flux list"
  dispatched :: "(entry \<times> discord_message) list"
  attempts :: nat

text \<open>
  \<open>coll.update_one({"_id": i}, {"$set": ...})\<close>: the first document with that id is
  updated; when none has it, nothing changes.
\<close>

fun update_one :: "string \<Rightarrow> (flux \<Rightarrow> flux) \<Rightarrow> flux list \<Rightarrow> flux list" where
  "update_one i f [] = []"
| "update_one i f (d # ds) = (if ident d = i then f d # ds else d # update_one i f ds)"

definition max_per_run :: "flux \<Rightarrow> int" where
  "max_per_run fl = (case maxPerRun fl of None \<Rightarrow> 5 | Some m \<Rightarrow> if m = 0 then 5 else m)"

text \<open>
  The filters applied after the item is added to \<open>seen_items\<close>, each an
  \<open>if ...: continue\<close> of the loop body, in the order of the source.
\<close>

definition filters_reject :: "env \<Rightarrow> flux \<Rightarrow> string \<Rightarrow> string \<Rightarrow> bool" where
  "filters_reject ev fl full_text lnk =
     (if \<not> language_filter full_text (language fl) then True
      else if list_or (includeKeywords fl) \<noteq> []
              \<and> \<not> match_keywords full_text (list_or (includeKeywords fl)) then True
      else if list_or (excludeKeywords fl) \<noteq> []
              \<and> match_keywords full_text (list_or (excludeKeywords fl)) then True
      else if list_or (regexInclude fl) \<noteq> []
              \<and> \<not> match_regex (re_search ev) full_text (list_or (regexInclude fl)) True then True
      else if list_or (regexExclude fl) \<noteq> []
              \<and> match_regex (re_search ev) full_text (list_or (regexExclude fl)) True then True
      else if \<not> match_domains lnk (list_or (domainWhitelist fl)) (list_or (domainBlacklist fl)) then True
      else False)"

definition build_message :: "flux \<Rightarrow> string \<Rightarrow> string \<Rightarrow> string" where
  "build_message fl ttl lnk =
     (let m0 = replace_str ''{link}'' lnk
                 (replace_str ''{title}'' ttl (or_else (messageTemplate fl) (''{title}'' @ [CHR 0x0A] @ ''{link}'')));
          m1 = (if or_else (mentionUserId fl) [] \<noteq> [] then ''<@'' @ or_else (mentionUserId fl) [] @ ''> '' @ m0 else m0)
      in if or_else (mentionRoleId fl) [] \<noteq> [] then ''<@&'' @ or_else (mentionRoleId fl) [] @ ''> '' @ m1 else m1)"

text \<open>
  The \<open>try\<close> block of the loop body: the send, and on success \<open>mark_as_sent\<close>, the
  counter and the metadata update, whose failure is caught and logged.  Every
  exception of the send is caught and the loop goes on.
\<close>

definition deliver :: "env \<Rightarrow> flux \<Rightarrow> cycle \<Rightarrow> entry \<Rightarrow> string \<Rightarrow> string \<Rightarrow> cycle" where
  "deliver ev fl st e lnk message =
     (let msg = \<lparr>target_id = discordTarget fl, content = message, allow_embeds = allowEmbeds fl,
                 send_mode = (if mode fl = [] then ''direct'' else mode fl)\<rparr>;
          n = attempts st
      in case send_to_discord ev n msg of
           Raised err \<Rightarrow> st\<lparr>attempts := Suc n\<rparr>
         | Delivered \<Rightarrow>
             st\<lparr>attempts := Suc n,
                store := mark_as_sent (ident fl) lnk (current_timestamp ev n) (store st),
                sent_this_run := sent_this_run st + 1,
                dispatched := dispatched st @ [(e, msg)],
                coll := (if update_one_raises ev n then coll st
                         else update_one (ident fl)
                                (\<lambda>d. d\<lparr>lastItem := Some lnk, lastPubDate := getItemDate e,
                                        totalSent := totalSent fl + 1\<rparr>)
                                (coll st))\<rparr>)"

text \<open>The loop body after the cap test.\<close>

definition process_entry :: "env \<Rightarrow> flux \<Rightarrow> cycle \<Rightarrow> entry \<Rightarrow> cycle" where
  "process_entry ev fl st e =
     (let ttl = normalize_text (Some (or_else (title e) ''Sans titre''));
          lnk = normalize_text (Some (getItemLinkOrGuid e));
          smr = normalize_text (Some (or_else (summary e) (or_else (description e) [])))
      in if lnk = [] then st
         else if within_quiet_hours (now ev) (quietHoursStart fl) (quietHoursEnd fl) then st
         else if lnk \<in> seen_items st \<or> already_sent lnk (store st) then st
         else if filters_reject ev fl (ttl @ [CHR 0x0A] @ smr) lnk
              then st\<lparr>seen_items := insert lnk (seen_items st)\<rparr>
         else deliver ev fl (st\<lparr>seen_items := insert lnk (seen_items st)\<rparr>) e lnk (build_message fl ttl lnk))"

text \<open>The \<open>for\<close> loop: it breaks as soon as the counter has reached the cap.\<close>

fun check_loop :: "env \<Rightarrow> flux \<Rightarrow> cycle \<Rightarrow> entry list \<Rightarrow> cycle" where
  "check_loop ev fl st [] = st"
| "check_loop ev fl st (e # es) =
     (if max_per_run fl \<le> sent_this_run st then st
      else check_loop ev fl (process_entry ev fl st e) es)"

definition start_cycle :: "sent_items_db \<Rightarrow> flux list \<Rightarrow> cycle" where
  "start_cycle db c = \<lparr>sent_this_run = 0, seen_items = {}, store = db, coll = c, dispatched = [], attempts = 0\<rparr>"

text \<open>
  \<open>check_flux\<close>.  The feed is what \<open>parse_rss_feed\<close> gave: an exception, or the
  entries.  On an exception or an empty feed the cycle ends at once.  The sort cannot
  raise here, the dates being integers already, so the fallback to the unsorted
  entries has no branch.
\<close>

definition check_flux :: "env \<Rightarrow> flux \<Rightarrow> py_error + entry list \<Rightarrow> sent_items_db \<Rightarrow> flux list \<Rightarrow> cycle" where
  "check_flux ev fl feed db c =
     (case feed of
        Inl err \<Rightarrow> start_cycle db c
      | Inr entries \<Rightarrow>
          if entries = [] then start_cycle db c
          else check_loop ev fl (start_cycle db c) (sort_items entries))"

text \<open>
  The same loop body run over every entry with no cap test: the items it delivers are
  the items that qualify (they pass the quiet hours, the dedup test and the filters,
  and the sink accepts them).
\<close>

definition run_all :: "env \<Rightarrow> flux \<Rightarrow> cycle \<Rightarrow> entry list \<Rightarrow> cycle" where
  "run_all ev fl st es = foldl (process_entry ev fl) st es"

definition dispatched_links :: "cycle \<Rightarrow> string list" where
  "dispatched_links st = map (\<lambda>p. normalize_text (Some (getItemLinkOrGuid (fst p)))) (dispatched st)"

text \<open>The link under which a delivered entry was handled by the loop body.\<close>

definition lnk_of :: "entry \<times> discord_message \<Rightarrow> string" where
  "lnk_of p = normalize_text (Some (getItemLinkOrGuid (fst p)))"

section \<open>Check cycles that overlap in time\<close>

text \<open>
  \<open>send_to_discord\<close> is awaited, so the loop body is suspended between its dedup test
  and its \<open>mark_as_sent\<close>, and the cycle of another feed can run meanwhile.
  \<open>up_to_send\<close> is the loop body up to that \<open>await\<close>: \<open>Inl\<close> when the entry is skipped
  by a \<open>continue\<close>, \<open>Inr\<close> with the link and the message when the send is reached.
  \<open>deliver\<close> is the rest of the body.
\<close>

definition up_to_send :: "env \<Rightarrow> flux \<Rightarrow> cycle \<Rightarrow> entry \<Rightarrow> cycle + (cycle \<times> string \<times> string)" where
  "up_to_send ev fl st e =
     (let ttl = normalize_text (Some (or_else (title e) ''Sans titre''));
          lnk = normalize_text (Some (getItemLinkOrGuid e));
          smr = normalize_text (Some (or_else (summary e) (or_else (description e) [])))
      in if lnk = [] then Inl st
         else if within_quiet_hours (now ev) (quietHoursStart fl) (quietHoursEnd fl) then Inl st
         else if lnk \<in> seen_items st \<or> already_sent lnk (store st) then Inl st
         else if filters_reject ev fl (ttl @ [CHR 0x0A] @ smr) lnk
              then Inl (st\<lparr>seen_items := insert lnk (seen_items st)\<rparr>)
         else Inr (st\<lparr>seen_items := insert lnk (seen_items st)\<rparr>, lnk, build_message fl ttl lnk))"

text \<open>
  Two cycles, of the feeds \<open>flA\<close> and \<open>flB\<close>, that start on the same store and meet the
  same entry: both run the loop body up to the send, then the send and the mark of
  \<open>flB\<close> complete, then those of \<open>flA\<close>, on the store as \<open>flB\<close> left it.  The result
  is the two final cycle states, \<open>None\<close> when one of the cycles skips the entry.
\<close>

definition overlapped_cycles :: "env \<Rightarrow> flux \<Rightarrow> flux \<Rightarrow> entry \<Rightarrow> sent_items_db \<Rightarrow> (cycle \<times> cycle) option" where
  "overlapped_cycles ev flA flB e db =
     (case up_to_send ev flA (start_cycle db []) e of
        Inl s \<Rightarrow> None
      | Inr a \<Rightarrow>
          (case up_to_send ev flB (start_cycle db []) e of
             Inl s \<Rightarrow> None
           | Inr b \<Rightarrow>
               (let rB = deliver ev flB (fst b) e (fst (snd b)) (snd (snd b));
                    rA = deliver ev flA ((fst a)\<lparr>store := store rB\<rparr>) e (fst (snd a)) (snd (snd a))
                in Some (rA, rB))))"

section \<open>The scheduler service (app/services/scheduler\_service.py)\<close>

text \<open>
  A scheduled job: the seconds of its \<open>IntervalTrigger\<close> and the feed object it was
  given as argument.  The service holds the scheduler (absent before \<open>init\<close>; its job
  store is a map from job ids), the aggressive-mode flag and the handle of the
  configuration collection (absent before \<open>init\<close>).  The collection itself is part of
  the application state, as the list of the feed objects built from its documents.
\<close>

record job =
  job_interval :: int
  job_flux :: flux

record scheduler_service =
  scheduler :: "(string \<Rightarrow> job option) option"
  aggressive_mode :: bool
  collection :: "unit option"

record app =
  fluxes :: "flux list"
  service :: scheduler_service

definition schedule_flux :: "settings \<Rightarrow> scheduler_service \<Rightarrow> flux \<Rightarrow> py_error + (scheduler_service \<times> string \<times> int)" where
  "schedule_flux st svc fl =
     (case scheduler svc of
        None \<Rightarrow> Inl RuntimeError
      | Some jobs \<Rightarrow>
          (let job_id = ''flux_'' @ ident fl;
               interval_seconds = (if aggressive_mode svc then 10
                                   else if interval fl \<noteq> 0 then interval fl
                                   else default_check_interval st)
           in Inr (svc\<lparr>scheduler := Some (jobs(job_id := Some \<lparr>job_interval = interval_seconds, job_flux = fl\<rparr>))\<rparr>,
                   job_id, interval_seconds)))"

definition unschedule_flux :: "scheduler_service \<Rightarrow> string \<Rightarrow> py_error + (scheduler_service \<times> bool)" where
  "unschedule_flux svc fid =
     (case scheduler svc of
        None \<Rightarrow> Inl RuntimeError
      | Some jobs \<Rightarrow>
          (case jobs (''flux_'' @ fid) of
             None \<Rightarrow> Inr (svc, False)
           | Some j \<Rightarrow> Inr (svc\<lparr>scheduler := Some (jobs((''flux_'' @ fid) := None))\<rparr>, True)))"

text \<open>
  The loop of \<open>reload_all_schedules\<close> over the active feeds: a feed whose scheduling
  raises is recorded in \<open>errors\<close> and the loop goes on.
\<close>

fun reload_loop :: "settings \<Rightarrow> scheduler_service \<Rightarrow> flux list \<Rightarrow> nat \<Rightarrow> (string \<times> py_error) list
    \<Rightarrow> scheduler_service \<times> nat \<times> (string \<times> py_error) list" where
  "reload_loop st svc [] scheduled_count errors = (svc, scheduled_count, errors)"
| "reload_loop st svc (d # ds) scheduled_count errors =
     (case schedule_flux st svc d of
        Inl err \<Rightarrow> reload_loop st svc ds scheduled_count (errors @ [(ident d, err)])
      | Inr r \<Rightarrow> reload_loop st (fst r) ds (Suc scheduled_count) errors)"

definition reload_all_schedules :: "settings \<Rightarrow> app \<Rightarrow> py_error + (app \<times> nat \<times> (string \<times> py_error) list)" where
  "reload_all_schedules st a =
     (case collection (service a) of
        None \<Rightarrow> Inl RuntimeError
      | Some h \<Rightarrow>
          (case scheduler (service a) of
             None \<Rightarrow> Inl RuntimeError
           | Some jobs \<Rightarrow>
               (let r = reload_loop st ((service a)\<lparr>scheduler := Some (\<lambda>k. None)\<rparr>)
                          (filter active (fluxes a)) 0 []
                in Inr (a\<lparr>service := fst r\<rparr>, snd r))))"

text \<open>
  \<open>set_aggressive_mode\<close> sets the flag and then reloads; the flag stays set when the
  reload raises, so the new state is returned beside the outcome.
\<close>

definition set_aggressive_mode :: "settings \<Rightarrow> app \<Rightarrow> bool \<Rightarrow> app \<times> (py_error + bool \<times> nat)" where
  "set_aggressive_mode st a enabled =
     (let a1 = a\<lparr>service := (service a)\<lparr>aggressive_mode := enabled\<rparr>\<rparr>
      in case reload_all_schedules st a1 of
           Inl err \<Rightarrow> (a1, Inl err)
         | Inr r \<Rightarrow> (fst r, Inr (aggressive_mode (service (fst r)), fst (snd r))))"

text \<open>The interval of the job installed for a feed id, when there is one.\<close>

definition installed_interval :: "app \<Rightarrow> string \<Rightarrow> int option" where
  "installed_interval a fid =
     (case scheduler (service a) of
        None \<Rightarrow> None
      | Some jobs \<Rightarrow> map_option job_interval (jobs (''flux_'' @ fid)))"

section \<open>Creating a feed (app/routers/fluxes.py)\<close>

text \<open>\<open>isValidDiscordId\<close>: \<open>re.fullmatch(r"\d{17,20}", value)\<close>.\<close>

definition isValidDiscordId :: "string \<Rightarrow> bool" where
  "isValidDiscordId v = (17 \<le> length v \<and> length v \<le> 20 \<and> list_all (\<lambda>c. digit_of c \<noteq> None) v)"

datatype http_error = BadRequest | InternalServerError py_error

text \<open>
  \<open>create_flux\<close>.  The request body is a \<open>FluxCreate\<close>, which the framework has
  validated against the field types of \<open>FluxBase\<close> (\<open>interval\<close> is an \<open>int\<close> with default
  300 and the description "Intervalle en secondes (min 60)"); its fields are those of
  the feed object given here, whose \<open>ident\<close> and running metadata are not read.
  \<open>new_id\<close> is the id the collection gives the inserted document.  The document is
  inserted before the feed is scheduled, so the new state is returned beside the
  outcome.
\<close>

definition create_flux :: "settings \<Rightarrow> string \<Rightarrow> app \<Rightarrow> flux \<Rightarrow> app \<times> (http_error + string)" where
  "create_flux st new_id a fl =
     (if \<not> isValidDiscordId (discordTarget fl) then (a, Inl BadRequest)
      else
        (let resolved_url = resolve st (rssUrl fl) (if sourceType fl = [] then ''rss'' else sourceType fl);
             doc = fl\<lparr>ident := new_id, rssUrl := resolved_url, lastItem := None, lastPubDate := None, totalSent := 0\<rparr>;
             a1 = a\<lparr>fluxes := fluxes a @ [doc]\<rparr>
         in if active doc
            then (case schedule_flux st (service a1) doc of
                    Inl err \<Rightarrow> (a1, Inl (InternalServerError err))
                  | Inr r \<Rightarrow> (a1\<lparr>service := fst r\<rparr>, Inr new_id))
            else (a1, Inr new_id)))"

text \<open>The application after start-up, with no feed and aggressive mode off.\<close>

definition started_app :: app where
  "started_app = \<lparr>fluxes = [], service = \<lparr>scheduler = Some (\<lambda>k. None), aggressive_mode = False, collection = Some ()\<rparr>\<rparr>"

section \<open>A concrete feed, environment and entries\<close>

text \<open>
  A feed with no filters, an environment whose sink and metadata update always
  succeed and whose regular-expression engine rejects the pattern \<open>(\<close> (an
  unterminated group, for which Python's \<open>re\<close> raises \<open>re.error\<close>), and entries with a
  title, a link and a publication time.
\<close>

definition example_flux :: flux where
  "example_flux = \<lparr>ident = ''f1'', rssUrl = Some ''https://e.org/feed'', sourceType = ''web'',
     discordTarget = ''12345678901234567'', interval = 300, mode = ''direct'', active = True,
     allowEmbeds = False, messageTemplate = None, mentionUserId = None, mentionRoleId = None,
     includeKeywords = Some [], excludeKeywords = Some [], regexInclude = Some [], regexExclude = Some [],
     domainWhitelist = Some [], domainBlacklist = Some [], language = None, maxPerRun = Some 5,
     quietHoursStart = None, quietHoursEnd = None, lastItem = None, lastPubDate = None, totalSent = 0\<rparr>"

definition example_env :: env where
  "example_env = \<lparr>now = \<lparr>hour = 12, minute = 0, second = 0, microsecond = 0\<rparr>,
           re_search = (\<lambda>p. if p = ''('' then None else Some (\<lambda>t. False)),
           send_to_discord = (\<lambda>n m. Delivered), update_one_raises = (\<lambda>n. False),
           current_timestamp = (\<lambda>n. 1000 + int n)\<rparr>"

definition example_entry :: "string \<Rightarrow> string \<Rightarrow> int \<Rightarrow> entry" where
  "example_entry t l d = \<lparr>title = Some t, link = Some l, entry_id = None, summary = None, description = None,
      published_parsed = Some d, updated_parsed = None\<rparr>"

text \<open>
  The effective interval in the specification's words: the short fixed value of 10
  seconds in aggressive mode, and otherwise the feed's own interval, or the configured
  default when the feed has none (an interval of 0).
\<close>

definition effective_interval :: "settings \<Rightarrow> bool \<Rightarrow> flux \<Rightarrow> int" where
  "effective_interval st aggressive fl =
     (if aggressive then 10
      else if interval fl = 0 then default_check_interval st
      else interval fl)"

text \<open>An application with two active feeds and one inactive feed.\<close>

definition example_app :: app where
  "example_app = started_app\<lparr>fluxes := [example_flux\<lparr>ident := ''a'', interval := 600\<rparr>,
                                          example_flux\<lparr>ident := ''b'', interval := 0\<rparr>,
                                          example_flux\<lparr>ident := ''c'', active := False\<rparr>]\<rparr>"

section \<open>Properties of the dedup store\<close>

lemma already_sent_mark_as_sent: "already_sent k (mark_as_sent f k t db)"
  by (simp add: already_sent_def mark_as_sent_def insert_sent_item_def)

lemma already_sent_mono: "already_sent u db \<Longrightarrow> already_sent u (mark_as_sent f k t db)"
  by (simp add: already_sent_def mark_as_sent_def insert_sent_item_def)

lemma mark_as_sent_known: "already_sent k db \<Longrightarrow> mark_as_sent f k t db = db"
  by (simp add: already_sent_def mark_as_sent_def insert_sent_item_def)

lemma mark_as_sent_fresh_urls:
  "\<not> already_sent k db \<Longrightarrow> map item_url (rows (mark_as_sent f k t db)) = map item_url (rows db) @ [k]"
  by (simp add: already_sent_def mark_as_sent_def insert_sent_item_def)

lemma unique_item_urls_mark_as_sent:
  "unique_item_urls db \<Longrightarrow> unique_item_urls (mark_as_sent f k t db)"
  by (simp add: unique_item_urls_def mark_as_sent_def insert_sent_item_def)

lemma unique_item_urls_init_db: "unique_item_urls init_db"
  by (simp add: unique_item_urls_def init_db_def)

lemma count_one_of_distinct:
  "distinct (map g xs) \<Longrightarrow> k \<in> set (map g xs) \<Longrightarrow> length (filter (\<lambda>r. g r = k) xs) = 1"
proof (induction xs)
  case Nil
  then show ?case by simp
next
  case (Cons x xs)
  show ?case
  proof (cases "g x = k")
    case True
    with Cons.prems have "k \<notin> g ` set xs" by auto
    then have "filter (\<lambda>r. g r = k) xs = []" by (auto simp: filter_empty_conv)
    with True show ?thesis by simp
  next
    case False
    with Cons show ?thesis by auto
  qed
qed

text \<open>
  C1.  For every feed id and item key, \<open>already_sent\<close> after \<open>mark_as_sent\<close> with the
  same key is true.  A second \<open>mark_as_sent\<close> with that key (by any feed, at any
  time) takes the \<open>IntegrityError\<close> path of the insert, which is swallowed, and leaves
  the store as it was; the store, which satisfies the table's uniqueness constraint,
  then holds exactly one row for the key.
\<close>

theorem C1_mark_then_already_sent:
  assumes "unique_item_urls db"
  shows "already_sent k (mark_as_sent f k t db)
       \<and> insert_sent_item f' k t' (mark_as_sent f k t db) = Inl IntegrityError
       \<and> mark_as_sent f' k t' (mark_as_sent f k t db) = mark_as_sent f k t db
       \<and> length (filter (\<lambda>r. item_url r = k) (rows (mark_as_sent f k t db))) = 1
       \<and> unique_item_urls (mark_as_sent f k t db)"
proof -
  let ?db = "mark_as_sent f k t db"
  have sent: "already_sent k ?db" by (rule already_sent_mark_as_sent)
  have uniq: "unique_item_urls ?db" using assms by (rule unique_item_urls_mark_as_sent)
  have dup: "insert_sent_item f' k t' ?db = Inl IntegrityError"
    using sent by (simp add: insert_sent_item_def already_sent_def)
  have noop: "mark_as_sent f' k t' ?db = ?db"
    using sent by (rule mark_as_sent_known)
  have one: "length (filter (\<lambda>r. item_url r = k) (rows ?db)) = 1"
    using uniq sent by (simp add: unique_item_urls_def already_sent_def count_one_of_distinct)
  from sent dup noop one uniq show ?thesis by simp
qed

theorem C1_witness:
  "unique_item_urls init_db
   \<and> already_sent ''https://a.example/1'' (mark_as_sent ''f1'' ''https://a.example/1'' 100 init_db)
   \<and> mark_as_sent ''f2'' ''https://a.example/1'' 200 (mark_as_sent ''f1'' ''https://a.example/1'' 100 init_db)
       = mark_as_sent ''f1'' ''https://a.example/1'' 100 init_db
   \<and> length (filter (\<lambda>r. item_url r = ''https://a.example/1'')
        (rows (mark_as_sent ''f1'' ''https://a.example/1'' 100 init_db))) = 1"
  using C1_mark_then_already_sent [OF unique_item_urls_init_db,
      of "''https://a.example/1''" "''f1''" 100 "''f2''" 200]
  by (simp add: unique_item_urls_init_db)

section \<open>Properties of the source resolver\<close>

lemma resolve_youtube_Some: "\<exists>r. resolve_youtube (Some url) = Inr r"
  by (simp add: resolve_youtube_def)

lemma resolve_body_Some: "\<exists>r. resolve_body st (Some url) k = Inr (Some r)"
  by (simp add: resolve_body_def resolve_youtube_def resolve_facebook_def
      resolve_instagram_def resolve_tiktok_def)

text \<open>
  C8.  With kind \<open>youtube\<close>, \<open>https://youtube.com/channel/UCabc\<close> resolves to the
  channel-id feed and \<open>https://youtube.com/@name\<close> to the feed with the query
  \<open>user=name\<close>; with kind \<open>instagram\<close>, \<open>https://instagram.com/alice\<close> resolves to
  the bridging base (its trailing slashes dropped) followed by \<open>/instagram/user/alice\<close>,
  for every configured base, and to \<open>https://rsshub.app/instagram/user/alice\<close> with
  the default one.
\<close>

theorem C8_source_resolution:
  "resolve st (Some ''https://youtube.com/channel/UCabc'') ''youtube''
     = Some ''https://www.youtube.com/feeds/videos.xml?channel_id=UCabc''
   \<and> resolve st (Some ''https://youtube.com/@name'') ''youtube''
     = Some ''https://www.youtube.com/feeds/videos.xml?user=name''
   \<and> resolve st (Some ''https://instagram.com/alice'') ''instagram''
     = Some (rstrip_chars ''/'' (rsshub_base st) @ ''/instagram/user/alice'')
   \<and> resolve default_settings (Some ''https://instagram.com/alice'') ''instagram''
     = Some ''https://rsshub.app/instagram/user/alice''"
  by (simp add: resolve_def resolve_body_def resolve_youtube_def resolve_instagram_def
      segment_def split_str_def rstrip_chars_def default_settings_def)

text \<open>
  C9.  The resolver is total: it returns a string for every input string and every
  kind, and raises nothing.  For a kind other than youtube, facebook, instagram and
  tiktok it returns its input unchanged, and when the body of its \<open>try\<close> block raises
  it returns its input.
\<close>

theorem C9_resolve_never_raises:
  "(\<exists>r. resolve st (Some url) k = Some r)
   \<and> (k \<notin> {''youtube'', ''facebook'', ''instagram'', ''tiktok''} \<longrightarrow> resolve st u k = u)
   \<and> (resolve_body st u k = Inl e \<longrightarrow> resolve st u k = u)"
proof -
  obtain r where "resolve_body st (Some url) k = Inr (Some r)"
    using resolve_body_Some by blast
  then have total: "\<exists>r. resolve st (Some url) k = Some r"
    by (simp add: resolve_def)
  have other: "k \<notin> {''youtube'', ''facebook'', ''instagram'', ''tiktok''} \<longrightarrow> resolve st u k = u"
    by (simp add: resolve_def resolve_body_def)
  have caught: "resolve_body st u k = Inl e \<longrightarrow> resolve st u k = u"
    by (simp add: resolve_def)
  from total other caught show ?thesis by blast
qed

theorem C9_witness:
  "''rss'' \<notin> {''youtube'', ''facebook'', ''instagram'', ''tiktok''}
   \<and> resolve default_settings (Some ''https://example.org/feed.xml'') ''rss'' = Some ''https://example.org/feed.xml''
   \<and> resolve_body default_settings None ''youtube'' = Inl TypeError
   \<and> resolve default_settings None ''youtube'' = None"
proof -
  have k: "''rss'' \<notin> {''youtube'', ''facebook'', ''instagram'', ''tiktok''}" by simp
  have b: "resolve_body default_settings None ''youtube'' = Inl TypeError"
    by (simp add: resolve_body_def resolve_youtube_def)
  from C9_resolve_never_raises [of default_settings "''x''" "''rss''" "Some ''https://example.org/feed.xml''" TypeError]
  have r1: "resolve default_settings (Some ''https://example.org/feed.xml'') ''rss'' = Some ''https://example.org/feed.xml''"
    using k by blast
  from C9_resolve_never_raises [of default_settings "''x''" "''youtube''" None TypeError]
  have r2: "resolve default_settings None ''youtube'' = None"
    using b by blast
  from k b r1 r2 show ?thesis by blast
qed

section \<open>Properties of the quiet-hours predicate\<close>

lemma lex_step:
  fixes a b c d k :: nat
  assumes "b < k" "d < k"
  shows "(a * k + b < c * k + d) = (a < c \<or> (a = c \<and> b < d))"
proof (cases a c rule: linorder_cases)
  case less
  then have "Suc a \<le> c" by simp
  then have "Suc a * k \<le> c * k" by (rule mult_le_mono1)
  with assms less show ?thesis by simp
next
  case equal
  then show ?thesis by simp
next
  case greater
  then have "Suc c \<le> a" by simp
  then have "Suc c * k \<le> a * k" by (rule mult_le_mono1)
  with assms greater show ?thesis by simp
qed

lemma lex_eq:
  fixes a b c d k :: nat
  assumes "b < k" "d < k"
  shows "(a * k + b = c * k + d) = (a = c \<and> b = d)"
  using lex_step [OF assms, of a c] lex_step [OF assms(2) assms(1), of c a] by auto

lemma time_lt_micros:
  assumes "valid_time a" "valid_time b"
  shows "time_lt a b = (micros a < micros b)"
proof -
  have ma: "minute a < 60" and mb: "minute b < 60" and sa: "second a < 60" and sb: "second b < 60"
    and ua: "microsecond a < 1000000" and ub: "microsecond b < 1000000"
    using assms by (simp_all add: valid_time_def)
  note m = lex_step [OF ma mb, of "hour a" "hour b"]
  note me = lex_eq [OF ma mb, of "hour a" "hour b"]
  note s = lex_step [OF sa sb, of "hour a * 60 + minute a" "hour b * 60 + minute b"]
  note se = lex_eq [OF sa sb, of "hour a * 60 + minute a" "hour b * 60 + minute b"]
  note u = lex_step [OF ua ub, of "(hour a * 60 + minute a) * 60 + second a" "(hour b * 60 + minute b) * 60 + second b"]
  show ?thesis
    unfolding micros_def time_lt_def u s se m me by blast
qed

lemma micros_inj:
  assumes "valid_time a" "valid_time b" "micros a = micros b"
  shows "a = b"
proof -
  have n1: "\<not> time_lt a b" using time_lt_micros [OF assms(1,2)] assms(3) by simp
  have n2: "\<not> time_lt b a" using time_lt_micros [OF assms(2,1)] assms(3) by simp
  from n1 n2 have "hour a = hour b \<and> minute a = minute b \<and> second a = second b \<and> microsecond a = microsecond b"
    unfolding time_lt_def by (metis linorder_neqE_nat)
  then show ?thesis by simp
qed

lemma time_le_micros: "valid_time a \<Longrightarrow> valid_time b \<Longrightarrow> time_le a b = (micros a \<le> micros b)"
  using time_lt_micros [of a b] micros_inj [of a b] by (auto simp: time_le_def)

lemma digit_of_le: "digit_of c = Some n \<Longrightarrow> n \<le> 9"
  by (auto simp: digit_of_def split: if_splits)

lemma two_digits_le: "two_digits b s = Some n \<Longrightarrow> n \<le> max b 9"
  by (cases "(b, s)" rule: two_digits.cases)
     (auto dest: digit_of_le split: option.splits if_splits)

lemma strptime_HM_valid:
  assumes "strptime_HM s = Inr t"
  shows "valid_time t"
proof -
  from assms obtain hh mm where t: "t = \<lparr>hour = hh, minute = mm, second = 0, microsecond = 0\<rparr>"
    and h: "two_digits 23 (takeWhile (\<lambda>c. c \<noteq> CHR '':'') s) = Some hh"
    and m: "two_digits 59 (tl (dropWhile (\<lambda>c. c \<noteq> CHR '':'') s)) = Some mm"
    by (auto simp: strptime_HM_def split: list.splits option.splits)
  from two_digits_le [OF h] two_digits_le [OF m] t show ?thesis
    by (simp add: valid_time_def)
qed

lemma hhmm_valid: "hhmm x = Some t \<Longrightarrow> valid_time t"
  by (auto simp: hhmm_def split: option.splits sum.splits dest: strptime_HM_valid)

lemma strptime_HM_empty: "strptime_HM [] = Inl ValueError"
  by (simp add: strptime_HM_def)

lemma within_quiet_hours_hhmm:
  "within_quiet_hours now_t start_s end_s =
     (case hhmm start_s of
        None \<Rightarrow> False
      | Some st \<Rightarrow>
          (case hhmm end_s of
             None \<Rightarrow> False
           | Some en \<Rightarrow>
               if time_lt st en then time_le st now_t \<and> time_le now_t en
               else time_le st now_t \<or> time_le now_t en))"
proof (cases start_s)
  case None
  then show ?thesis by (simp add: within_quiet_hours_def hhmm_def)
next
  case (Some s)
  note s = this
  show ?thesis
  proof (cases end_s)
    case None
    then show ?thesis by (simp add: within_quiet_hours_def hhmm_def split: option.splits)
  next
    case (Some e)
    show ?thesis
    proof (cases "s = [] \<or> e = []")
      case True
      with s Some show ?thesis
        by (auto simp: within_quiet_hours_def hhmm_def strptime_HM_empty split: sum.splits)
    next
      case False
      with s Some show ?thesis
        by (simp add: within_quiet_hours_def hhmm_def split: sum.splits)
    qed
  qed
qed

text \<open>
  At 06:00:00 sharp, with quiet hours from 22:00 to 06:00, the code rejects, while the
  half-open interval of the specification's wording leaves the end point out.
\<close>

theorem C4_counterexample:
  "within_quiet_hours \<lparr>hour = 6, minute = 0, second = 0, microsecond = 0\<rparr> (Some ''22:00'') (Some ''06:00'')
   \<and> \<not> quiet_hours_spec \<lparr>hour = 6, minute = 0, second = 0, microsecond = 0\<rparr> (Some ''22:00'') (Some ''06:00'')"
  by (simp add: within_quiet_hours_def quiet_hours_spec_def hhmm_def strptime_HM_def digit_of_def
      time_lt_def time_le_def)

text \<open>
  C4 (amended).  For every time a clock can show, the quiet-hours predicate rejects
  exactly when both bounds are present and parse as \<open>HH:MM\<close> and the time lies in the
  closed interval from start to end, both end points included; when start is not
  earlier than end the interval wraps past midnight (from start on, or up to and
  including end).  With start 22:00 and end 06:00 it rejects at 23:30 and accepts at
  12:00.  When a bound is missing or does not parse, it never rejects.
\<close>

theorem C4_quiet_hours_closed_interval:
  assumes "valid_time now_t"
  shows "within_quiet_hours now_t start_s end_s =
           (case hhmm start_s of
              None \<Rightarrow> False
            | Some st \<Rightarrow>
                (case hhmm end_s of
                   None \<Rightarrow> False
                 | Some en \<Rightarrow>
                     if micros st < micros en
                     then micros st \<le> micros now_t \<and> micros now_t \<le> micros en
                     else micros st \<le> micros now_t \<or> micros now_t \<le> micros en))
       \<and> ((hhmm start_s = None \<or> hhmm end_s = None) \<longrightarrow> \<not> within_quiet_hours now_t start_s end_s)
       \<and> within_quiet_hours \<lparr>hour = 23, minute = 30, second = 0, microsecond = 0\<rparr> (Some ''22:00'') (Some ''06:00'')
       \<and> \<not> within_quiet_hours \<lparr>hour = 12, minute = 0, second = 0, microsecond = 0\<rparr> (Some ''22:00'') (Some ''06:00'')"
proof -
  have eq: "within_quiet_hours now_t start_s end_s =
           (case hhmm start_s of
              None \<Rightarrow> False
            | Some st \<Rightarrow>
                (case hhmm end_s of
                   None \<Rightarrow> False
                 | Some en \<Rightarrow>
                     if micros st < micros en
                     then micros st \<le> micros now_t \<and> micros now_t \<le> micros en
                     else micros st \<le> micros now_t \<or> micros now_t \<le> micros en))"
  proof (cases "hhmm start_s")
    case None
    then show ?thesis by (simp add: within_quiet_hours_hhmm)
  next
    case (Some st)
    note st = this
    show ?thesis
    proof (cases "hhmm end_s")
      case None
      with st show ?thesis by (simp add: within_quiet_hours_hhmm)
    next
      case (Some en)
      have vs: "valid_time st" using st by (rule hhmm_valid)
      have ve: "valid_time en" using Some by (rule hhmm_valid)
      show ?thesis
        using st Some
        by (simp add: within_quiet_hours_hhmm time_lt_micros [OF vs ve]
            time_le_micros [OF vs assms] time_le_micros [OF assms ve])
    qed
  qed
  have missing: "(hhmm start_s = None \<or> hhmm end_s = None) \<longrightarrow> \<not> within_quiet_hours now_t start_s end_s"
    by (auto simp: within_quiet_hours_hhmm split: option.splits)
  have ex1: "within_quiet_hours \<lparr>hour = 23, minute = 30, second = 0, microsecond = 0\<rparr> (Some ''22:00'') (Some ''06:00'')"
    by (simp add: within_quiet_hours_def strptime_HM_def digit_of_def time_lt_def time_le_def)
  have ex2: "\<not> within_quiet_hours \<lparr>hour = 12, minute = 0, second = 0, microsecond = 0\<rparr> (Some ''22:00'') (Some ''06:00'')"
    by (simp add: within_quiet_hours_def strptime_HM_def digit_of_def time_lt_def time_le_def)
  from eq missing ex1 ex2 show ?thesis by blast
qed

theorem C4_witness:
  "valid_time \<lparr>hour = 23, minute = 30, second = 0, microsecond = 0\<rparr>
   \<and> within_quiet_hours \<lparr>hour = 23, minute = 30, second = 0, microsecond = 0\<rparr> (Some ''22:00'') (Some ''06:00'')
   \<and> hhmm (Some ''6h'') = None
   \<and> \<not> within_quiet_hours \<lparr>hour = 23, minute = 30, second = 0, microsecond = 0\<rparr> (Some ''22:00'') (Some ''6h'')"
proof -
  let ?t = "\<lparr>hour = 23, minute = 30, second = 0, microsecond = 0\<rparr>"
  have v: "valid_time ?t" by (simp add: valid_time_def)
  have s: "hhmm (Some ''22:00'') = Some \<lparr>hour = 22, minute = 0, second = 0, microsecond = 0\<rparr>"
    by (simp add: hhmm_def strptime_HM_def digit_of_def)
  have e: "hhmm (Some ''06:00'') = Some \<lparr>hour = 6, minute = 0, second = 0, microsecond = 0\<rparr>"
    by (simp add: hhmm_def strptime_HM_def digit_of_def)
  have bad: "hhmm (Some ''6h'') = None"
    by (simp add: hhmm_def strptime_HM_def digit_of_def)
  have r1: "within_quiet_hours ?t (Some ''22:00'') (Some ''06:00'')"
    using C4_quiet_hours_closed_interval [OF v, of "Some ''22:00''" "Some ''06:00''"]
    by (simp add: s e micros_def)
  have r2: "\<not> within_quiet_hours ?t (Some ''22:00'') (Some ''6h'')"
    using C4_quiet_hours_closed_interval [OF v, of "Some ''22:00''" "Some ''6h''"] bad
    by blast
  from v r1 bad r2 show ?thesis by blast
qed

section \<open>Properties of the check cycle\<close>

lemma dispatched_links_lnk_of: "dispatched_links st = map lnk_of (dispatched st)"
  by (simp add: dispatched_links_def lnk_of_def)

lemma deliver_step:
  assumes "\<not> already_sent lnk (store st)"
  shows "\<exists>ds. dispatched (deliver ev fl st e lnk m) = dispatched st @ ds
            \<and> sent_this_run (deliver ev fl st e lnk m) = sent_this_run st + int (length ds)
            \<and> length ds \<le> 1
            \<and> map item_url (rows (store (deliver ev fl st e lnk m)))
                = map item_url (rows (store st)) @ map (\<lambda>p. lnk) ds
            \<and> set (map fst ds) \<subseteq> {e}"
proof (cases "send_to_discord ev (attempts st) \<lparr>target_id = discordTarget fl, content = m,
        allow_embeds = allowEmbeds fl, send_mode = (if mode fl = [] then ''direct'' else mode fl)\<rparr>")
  case Delivered
  then show ?thesis
    using assms by (simp add: deliver_def Let_def mark_as_sent_fresh_urls)
next
  case (Raised err)
  then show ?thesis
    by (simp add: deliver_def Let_def)
qed

lemma process_entry_step:
  "\<exists>ds. dispatched (process_entry ev fl st e) = dispatched st @ ds
      \<and> sent_this_run (process_entry ev fl st e) = sent_this_run st + int (length ds)
      \<and> length ds \<le> 1
      \<and> map item_url (rows (store (process_entry ev fl st e)))
          = map item_url (rows (store st)) @ map lnk_of ds
      \<and> set (map fst ds) \<subseteq> {e}
      \<and> list_all (\<lambda>u. \<not> already_sent u (store st)) (map lnk_of ds)"
proof -
  let ?lnk = "normalize_text (Some (getItemLinkOrGuid e))"
  let ?st1 = "st\<lparr>seen_items := insert ?lnk (seen_items st)\<rparr>"
  let ?m = "build_message fl (normalize_text (Some (or_else (title e) ''Sans titre''))) ?lnk"
  show ?thesis
  proof (cases "process_entry ev fl st e = deliver ev fl ?st1 e ?lnk ?m \<and> \<not> already_sent ?lnk (store st)")
    case True
    then have ns: "\<not> already_sent ?lnk (store ?st1)" by simp
    from deliver_step [OF ns, of ev fl e ?m]
    obtain ds where ds: "dispatched (deliver ev fl ?st1 e ?lnk ?m) = dispatched ?st1 @ ds"
      "sent_this_run (deliver ev fl ?st1 e ?lnk ?m) = sent_this_run ?st1 + int (length ds)"
      "length ds \<le> 1"
      "map item_url (rows (store (deliver ev fl ?st1 e ?lnk ?m)))
                = map item_url (rows (store ?st1)) @ map (\<lambda>p. ?lnk) ds"
      "set (map fst ds) \<subseteq> {e}"
      by blast
    from ds(5) have same: "map lnk_of ds = map (\<lambda>p. ?lnk) ds"
      by (auto simp: lnk_of_def)
    have fresh: "list_all (\<lambda>u. \<not> already_sent u (store st)) (map lnk_of ds)"
      using True by (simp add: same list_all_iff)
    from True ds same fresh show ?thesis
      by (intro exI [of _ ds]) simp
  next
    case False
    then have "dispatched (process_entry ev fl st e) = dispatched st
        \<and> sent_this_run (process_entry ev fl st e) = sent_this_run st
        \<and> store (process_entry ev fl st e) = store st"
      by (auto simp: process_entry_def Let_def split: if_splits)
    then show ?thesis
      by (intro exI [of _ "[]"]) simp
  qed
qed

lemma run_all_Cons: "run_all ev fl st (e # es) = run_all ev fl (process_entry ev fl st e) es"
  by (simp add: run_all_def)

lemma run_all_Nil: "run_all ev fl st [] = st"
  by (simp add: run_all_def)

lemma run_all_prefix: "\<exists>ds. dispatched (run_all ev fl st es) = dispatched st @ ds"
proof (induction es arbitrary: st)
  case Nil
  show ?case by (simp add: run_all_Nil)
next
  case (Cons e es)
  obtain ds1 where d1: "dispatched (process_entry ev fl st e) = dispatched st @ ds1"
    using process_entry_step [of ev fl st e] by blast
  obtain ds2 where d2: "dispatched (run_all ev fl (process_entry ev fl st e) es)
      = dispatched (process_entry ev fl st e) @ ds2"
    using Cons.IH by blast
  from d1 d2 show ?case by (simp add: run_all_Cons)
qed

lemma check_loop_stop: "max_per_run fl \<le> sent_this_run st \<Longrightarrow> check_loop ev fl st es = st"
  by (cases es) simp_all

lemma check_loop_take:
  "dispatched (check_loop ev fl st es)
     = take (length (dispatched st) + nat (max_per_run fl - sent_this_run st))
         (dispatched (run_all ev fl st es))"
proof (induction es arbitrary: st)
  case Nil
  show ?case by (simp add: run_all_Nil)
next
  case (Cons e es)
  show ?case
  proof (cases "max_per_run fl \<le> sent_this_run st")
    case True
    obtain ds where "dispatched (run_all ev fl st (e # es)) = dispatched st @ ds"
      using run_all_prefix by blast
    with True show ?thesis by (simp add: check_loop_stop)
  next
    case False
    let ?st' = "process_entry ev fl st e"
    obtain ds where ds: "dispatched ?st' = dispatched st @ ds"
      "sent_this_run ?st' = sent_this_run st + int (length ds)" "length ds \<le> 1"
      using process_entry_step [of ev fl st e] by blast
    from False ds(2,3)
    have "length (dispatched ?st') + nat (max_per_run fl - sent_this_run ?st')
        = length (dispatched st) + nat (max_per_run fl - sent_this_run st)"
      by (simp add: ds(1))
    with Cons.IH [of ?st'] False show ?thesis
      by (simp add: run_all_Cons)
  qed
qed

lemma check_loop_is_run_all_prefix:
  "\<exists>k. k \<le> length es \<and> check_loop ev fl st es = run_all ev fl st (take k es)"
proof (induction es arbitrary: st)
  case Nil
  show ?case by (simp add: run_all_Nil)
next
  case (Cons e es)
  show ?case
  proof (cases "max_per_run fl \<le> sent_this_run st")
    case True
    then have "check_loop ev fl st (e # es) = run_all ev fl st (take 0 (e # es))"
      by (simp add: run_all_Nil)
    then show ?thesis by blast
  next
    case False
    obtain k where k: "k \<le> length es"
      "check_loop ev fl (process_entry ev fl st e) es = run_all ev fl (process_entry ev fl st e) (take k es)"
      using Cons.IH by blast
    with False have "Suc k \<le> length (e # es)
        \<and> check_loop ev fl st (e # es) = run_all ev fl st (take (Suc k) (e # es))"
      by (simp add: run_all_Cons)
    then show ?thesis by blast
  qed
qed

lemma already_sent_urls: "already_sent u db = (u \<in> set (map item_url (rows db)))"
  by (simp add: already_sent_def)

lemma check_loop_trace:
  "\<exists>ds. dispatched (check_loop ev fl st es) = dispatched st @ ds
      \<and> map item_url (rows (store (check_loop ev fl st es)))
          = map item_url (rows (store st)) @ map lnk_of ds
      \<and> list_all (\<lambda>u. \<not> already_sent u (store st)) (map lnk_of ds)"
proof (induction es arbitrary: st)
  case Nil
  show ?case by simp
next
  case (Cons e es)
  show ?case
  proof (cases "max_per_run fl \<le> sent_this_run st")
    case True
    then show ?thesis by simp
  next
    case False
    let ?st' = "process_entry ev fl st e"
    obtain d1 where d1: "dispatched ?st' = dispatched st @ d1"
      "map item_url (rows (store ?st')) = map item_url (rows (store st)) @ map lnk_of d1"
      "list_all (\<lambda>u. \<not> already_sent u (store st)) (map lnk_of d1)"
      using process_entry_step [of ev fl st e] by blast
    obtain d2 where d2: "dispatched (check_loop ev fl ?st' es) = dispatched ?st' @ d2"
      "map item_url (rows (store (check_loop ev fl ?st' es)))
          = map item_url (rows (store ?st')) @ map lnk_of d2"
      "list_all (\<lambda>u. \<not> already_sent u (store ?st')) (map lnk_of d2)"
      using Cons.IH [of ?st'] by blast
    have mono: "\<And>u. already_sent u (store st) \<Longrightarrow> already_sent u (store ?st')"
      by (simp add: already_sent_urls d1(2))
    from d2(3) mono have "list_all (\<lambda>u. \<not> already_sent u (store st)) (map lnk_of d2)"
      by (auto simp: list_all_iff)
    with d1 d2 False show ?thesis
      by (intro exI [of _ "d1 @ d2"]) simp
  qed
qed

lemma check_loop_sorted:
  assumes "sorted_wrt R es"
    and "list_all (\<lambda>a. list_all (R a) es) (map fst (dispatched st))"
    and "sorted_wrt R (map fst (dispatched st))"
  shows "sorted_wrt R (map fst (dispatched (check_loop ev fl st es)))"
  using assms
proof (induction es arbitrary: st)
  case Nil
  then show ?case by simp
next
  case (Cons e es)
  show ?case
  proof (cases "max_per_run fl \<le> sent_this_run st")
    case True
    with Cons.prems show ?thesis by simp
  next
    case False
    let ?st' = "process_entry ev fl st e"
    obtain ds where ds: "dispatched ?st' = dispatched st @ ds" "length ds \<le> 1" "set (map fst ds) \<subseteq> {e}"
      using process_entry_step [of ev fl st e] by blast
    from ds(2) have one: "sorted_wrt R (map fst ds)"
      by (cases ds) simp_all
    have s1: "sorted_wrt R es" using Cons.prems(1) by simp
    have s2: "list_all (\<lambda>a. list_all (R a) es) (map fst (dispatched ?st'))"
      using Cons.prems(1,2) ds(3) by (auto simp: ds(1) list_all_iff)
    have s3: "sorted_wrt R (map fst (dispatched ?st'))"
      using Cons.prems(2,3) ds(3) one by (auto simp: ds(1) sorted_wrt_append list_all_iff)
    from Cons.IH [OF s1 s2 s3] False show ?thesis by simp
  qed
qed

lemma sort_items_sorted: "sorted_wrt (\<lambda>a b. sort_date b \<le> sort_date a) (sort_items entries)"
proof -
  have "sorted (map (\<lambda>e. - sort_date e) (sort_items entries))"
    by (simp add: sort_items_def)
  then show ?thesis by (simp add: sorted_map)
qed

lemma check_flux_Inr:
  "check_flux ev fl (Inr entries) db c = check_loop ev fl (start_cycle db c) (sort_items entries)"
  by (simp add: check_flux_def sort_items_def)

lemmas cycle_eval = check_flux_def run_all_def sort_items_def sort_date_def getItemDate_def
  example_entry_def example_flux_def example_env_def
  start_cycle_def max_per_run_def process_entry_def deliver_def filters_reject_def build_message_def
  normalize_text_def strip_def is_space_def getItemLinkOrGuid_def within_quiet_hours_def
  already_sent_def init_db_def mark_as_sent_def insert_sent_item_def language_filter_def
  match_domains_def extract_domain_def strip_prefix_def split_str_def replace_str_def
  match_regex_def service_match_regex_def Let_def

text \<open>
  A feed configured with \<open>maxPerRun = 0\<close> and one qualifying item: \<open>flux.maxPerRun or 5\<close>
  makes the cap 5, and the cycle dispatches the item, not zero items.
\<close>

theorem C2_counterexample:
  "maxPerRun (example_flux\<lparr>maxPerRun := Some 0\<rparr>) = Some 0
   \<and> length (dispatched (run_all example_env (example_flux\<lparr>maxPerRun := Some 0\<rparr>) (start_cycle init_db [])
        (sort_items [example_entry ''A'' ''https://e.org/a'' 10]))) = 1
   \<and> length (dispatched (check_flux example_env (example_flux\<lparr>maxPerRun := Some 0\<rparr>)
        (Inr [example_entry ''A'' ''https://e.org/a'' 10]) init_db [])) = 1"
  by (simp add: cycle_eval)

text \<open>
  C2 (amended).  The cap of a cycle is the feed's \<open>maxPerRun\<close> when that is set and
  not zero, and 5 otherwise.  One check cycle dispatches the first \<open>cap\<close> qualifying
  items of the sorted sequence (all of them when there are fewer, none when the cap is
  negative), so exactly \<open>cap\<close> items when more than \<open>cap\<close> qualify; they are in
  descending order of resolved timestamp; the rows the cycle adds to the dedup store
  are exactly those of the dispatched items, in that order; and the cycle's whole
  state is that of the loop body run over a prefix of the sorted sequence only: the
  items after the cap is reached are not evaluated.
\<close>

theorem C2_cap:
  "dispatched (check_flux ev fl (Inr entries) db c)
     = take (nat (max_per_run fl)) (dispatched (run_all ev fl (start_cycle db c) (sort_items entries)))
   \<and> length (dispatched (check_flux ev fl (Inr entries) db c))
     = min (nat (max_per_run fl)) (length (dispatched (run_all ev fl (start_cycle db c) (sort_items entries))))
   \<and> sorted_wrt (\<lambda>a b. sort_date b \<le> sort_date a) (map fst (dispatched (check_flux ev fl (Inr entries) db c)))
   \<and> map item_url (rows (store (check_flux ev fl (Inr entries) db c)))
     = map item_url (rows db) @ dispatched_links (check_flux ev fl (Inr entries) db c)
   \<and> (\<exists>k. k \<le> length entries
        \<and> check_flux ev fl (Inr entries) db c = run_all ev fl (start_cycle db c) (take k (sort_items entries)))"
proof -
  let ?st = "start_cycle db c"
  let ?es = "sort_items entries"
  have R: "check_flux ev fl (Inr entries) db c = check_loop ev fl ?st ?es"
    by (rule check_flux_Inr)
  have st: "dispatched ?st = []" "sent_this_run ?st = 0" "store ?st = db"
    by (simp_all add: start_cycle_def)
  have t: "dispatched (check_loop ev fl ?st ?es) = take (nat (max_per_run fl)) (dispatched (run_all ev fl ?st ?es))"
    using check_loop_take [of ev fl ?st ?es] by (simp add: st)
  have n: "length (dispatched (check_loop ev fl ?st ?es))
      = min (nat (max_per_run fl)) (length (dispatched (run_all ev fl ?st ?es)))"
    by (simp add: t min.commute)
  have s: "sorted_wrt (\<lambda>a b. sort_date b \<le> sort_date a) (map fst (dispatched (check_loop ev fl ?st ?es)))"
    by (rule check_loop_sorted [OF sort_items_sorted]) (simp_all add: st)
  obtain ds where ds: "dispatched (check_loop ev fl ?st ?es) = dispatched ?st @ ds"
    "map item_url (rows (store (check_loop ev fl ?st ?es))) = map item_url (rows (store ?st)) @ map lnk_of ds"
    using check_loop_trace [of ev fl ?st ?es] by blast
  then have m: "map item_url (rows (store (check_loop ev fl ?st ?es)))
      = map item_url (rows db) @ dispatched_links (check_loop ev fl ?st ?es)"
    by (simp add: st dispatched_links_lnk_of)
  obtain k where k: "k \<le> length ?es" "check_loop ev fl ?st ?es = run_all ev fl ?st (take k ?es)"
    using check_loop_is_run_all_prefix [of ?es ev fl ?st] by blast
  then have p: "\<exists>k. k \<le> length entries \<and> check_loop ev fl ?st ?es = run_all ev fl ?st (take k ?es)"
    by (auto simp: sort_items_def)
  from t n s m p show ?thesis unfolding R by blast
qed

text \<open>With \<open>maxPerRun = 2\<close> and three qualifying items, the two most recent are dispatched.\<close>

theorem C2_witness:
  "length (dispatched (check_flux example_env (example_flux\<lparr>maxPerRun := Some 2\<rparr>)
      (Inr [example_entry ''A'' ''https://e.org/a'' 10, example_entry ''B'' ''https://e.org/b'' 30,
            example_entry ''C'' ''https://e.org/c'' 20]) init_db [])) = 2
   \<and> dispatched_links (check_flux example_env (example_flux\<lparr>maxPerRun := Some 2\<rparr>)
      (Inr [example_entry ''A'' ''https://e.org/a'' 10, example_entry ''B'' ''https://e.org/b'' 30,
            example_entry ''C'' ''https://e.org/c'' 20]) init_db []) = [''https://e.org/b'', ''https://e.org/c'']"
proof -
  let ?fl = "example_flux\<lparr>maxPerRun := Some 2\<rparr>"
  let ?es = "[example_entry ''A'' ''https://e.org/a'' 10, example_entry ''B'' ''https://e.org/b'' 30,
            example_entry ''C'' ''https://e.org/c'' 20]"
  have q: "dispatched_links (run_all example_env ?fl (start_cycle init_db []) (sort_items ?es))
      = [''https://e.org/b'', ''https://e.org/c'', ''https://e.org/a'']"
    by (simp add: cycle_eval dispatched_links_def)
  have c: "nat (max_per_run ?fl) = 2"
    by (simp add: max_per_run_def example_flux_def)
  from C2_cap [of example_env ?fl ?es init_db "[]"]
  have d: "dispatched (check_flux example_env ?fl (Inr ?es) init_db [])
     = take 2 (dispatched (run_all example_env ?fl (start_cycle init_db []) (sort_items ?es)))"
    unfolding c by blast
  have l: "dispatched_links (check_flux example_env ?fl (Inr ?es) init_db [])
     = take 2 (dispatched_links (run_all example_env ?fl (start_cycle init_db []) (sort_items ?es)))"
    unfolding dispatched_links_def d by (simp only: take_map)
  have l2: "dispatched_links (check_flux example_env ?fl (Inr ?es) init_db []) = [''https://e.org/b'', ''https://e.org/c'']"
    unfolding l q by simp
  then have "length (dispatched_links (check_flux example_env ?fl (Inr ?es) init_db [])) = 2"
    by simp
  then have "length (dispatched (check_flux example_env ?fl (Inr ?es) init_db [])) = 2"
    by (simp add: dispatched_links_def)
  with l2 show ?thesis by blast
qed

lemma check_flux_trace:
  "\<exists>ds. dispatched (check_flux ev fl feed db c) = ds
      \<and> map item_url (rows (store (check_flux ev fl feed db c))) = map item_url (rows db) @ map lnk_of ds
      \<and> list_all (\<lambda>u. \<not> already_sent u db) (map lnk_of ds)"
proof (cases feed)
  case (Inl err)
  then show ?thesis by (simp add: check_flux_def start_cycle_def)
next
  case (Inr entries)
  let ?st = "start_cycle db c"
  have st: "dispatched ?st = []" "store ?st = db"
    by (simp_all add: start_cycle_def)
  from check_loop_trace [of ev fl ?st "sort_items entries"] Inr show ?thesis
    by (simp add: check_flux_Inr st)
qed

lemma check_flux_keeps_sent:
  "already_sent u db \<Longrightarrow> already_sent u (store (check_flux ev fl feed db c))"
  using check_flux_trace [of ev fl feed db c] by (auto simp: already_sent_urls)

lemma check_flux_skips_sent:
  "already_sent u db \<Longrightarrow> u \<notin> set (dispatched_links (check_flux ev fl feed db c))"
  using check_flux_trace [of ev fl feed db c] by (auto simp: dispatched_links_lnk_of list_all_iff)

lemma check_flux_marks_dispatched:
  "u \<in> set (dispatched_links (check_flux ev fl feed db c)) \<Longrightarrow> already_sent u (store (check_flux ev fl feed db c))"
  using check_flux_trace [of ev fl feed db c] by (auto simp: dispatched_links_lnk_of already_sent_urls)

lemma process_entry_split:
  "process_entry ev fl st e =
     (case up_to_send ev fl st e of
        Inl s \<Rightarrow> s
      | Inr r \<Rightarrow> deliver ev fl (fst r) e (fst (snd r)) (snd (snd r)))"
  by (simp add: process_entry_def up_to_send_def Let_def)

text \<open>
  Two feeds whose cycles overlap on an article that neither has sent: both pass the
  dedup test before either marks the link, both deliver it, and the store ends with
  the one row of the first mark.  The article is dispatched twice.
\<close>

theorem C10_counterexample:
  "\<not> already_sent ''https://e.org/a'' init_db
   \<and> map_option (\<lambda>r. (dispatched_links (fst r), dispatched_links (snd r), map item_url (rows (store (fst r)))))
        (overlapped_cycles example_env (example_flux\<lparr>ident := ''f1''\<rparr>) (example_flux\<lparr>ident := ''f2''\<rparr>)
           (example_entry ''A'' ''https://e.org/a'' 10) init_db)
      = Some ([''https://e.org/a''], [''https://e.org/a''], [''https://e.org/a''])"
  by (simp add: overlapped_cycles_def up_to_send_def dispatched_links_def cycle_eval)

text \<open>
  C10 (amended).  \<open>already_sent\<close> takes the item URL alone, and the stored feed id is
  not read.  Once any feed has marked a URL sent, \<open>already_sent\<close> is true for it, no
  check cycle of any feed that then runs over that store dispatches it, and it stays
  marked after that cycle; and of two cycles run one after the other, of any two feeds,
  the second starting on the store as the first left it, the second dispatches no link
  that the first dispatched.
\<close>

theorem C10_dedup_is_global:
  "already_sent u (mark_as_sent fA u t db)
   \<and> u \<notin> set (dispatched_links (check_flux ev flB feed (mark_as_sent fA u t db) c))
   \<and> already_sent u (store (check_flux ev flB feed (mark_as_sent fA u t db) c))
   \<and> set (dispatched_links (check_flux evA flA feedA db cA))
       \<inter> set (dispatched_links (check_flux evB flB feedB (store (check_flux evA flA feedA db cA)) cB)) = {}"
proof -
  have a: "already_sent u (mark_as_sent fA u t db)"
    by (rule already_sent_mark_as_sent)
  have b: "u \<notin> set (dispatched_links (check_flux ev flB feed (mark_as_sent fA u t db) c))"
    using a by (rule check_flux_skips_sent)
  have k: "already_sent u (store (check_flux ev flB feed (mark_as_sent fA u t db) c))"
    using a by (rule check_flux_keeps_sent)
  have d: "set (dispatched_links (check_flux evA flA feedA db cA))
       \<inter> set (dispatched_links (check_flux evB flB feedB (store (check_flux evA flA feedA db cA)) cB)) = {}"
  proof (rule ccontr)
    assume "\<not> ?thesis"
    then obtain w where w1: "w \<in> set (dispatched_links (check_flux evA flA feedA db cA))"
      and w2: "w \<in> set (dispatched_links (check_flux evB flB feedB (store (check_flux evA flA feedA db cA)) cB))"
      by blast
    from w1 have "already_sent w (store (check_flux evA flA feedA db cA))"
      by (rule check_flux_marks_dispatched)
    then have "w \<notin> set (dispatched_links (check_flux evB flB feedB (store (check_flux evA flA feedA db cA)) cB))"
      by (rule check_flux_skips_sent)
    with w2 show False by blast
  qed
  from a b k d show ?thesis by blast
qed

text \<open>
  C5.  \<open>check_flux\<close> of rss\_checker.py on a feed whose stored counter is 0 and
  whose feed holds two qualifying items, the sink and the metadata update succeeding:
  both items are delivered and marked sent, and the stored counter ends the cycle at 1,
  since each update writes \<open>flux.totalSent + 1\<close> from the unchanged feed object.
\<close>

theorem C5_total_sent_after_two_deliveries:
  "totalSent example_flux = 0
   \<and> length (dispatched (check_flux example_env example_flux
        (Inr [example_entry ''A'' ''https://e.org/a'' 10, example_entry ''B'' ''https://e.org/b'' 20])
        init_db [example_flux])) = 2
   \<and> map item_url (rows (store (check_flux example_env example_flux
        (Inr [example_entry ''A'' ''https://e.org/a'' 10, example_entry ''B'' ''https://e.org/b'' 20])
        init_db [example_flux]))) = [''https://e.org/b'', ''https://e.org/a'']
   \<and> map totalSent (coll (check_flux example_env example_flux
        (Inr [example_entry ''A'' ''https://e.org/a'' 10, example_entry ''B'' ''https://e.org/b'' 20])
        init_db [example_flux])) = [1]"
  by (simp add: cycle_eval)

text \<open>
  C3.  With the exclude-pattern list \<open>["("]\<close>, whose pattern does not compile:
  \<open>match_regex\<close> called with \<open>expect=True\<close>, as the loop calls it, returns true, and so
  does \<open>RSSService.match_regex\<close>; the loop rejects the item and the cycle dispatches
  nothing, while the same item is dispatched when the list is empty.  Called with
  \<open>expect=False\<close>, \<open>match_regex\<close> would return false on that list.
\<close>

theorem C3_invalid_exclude_pattern_rejects:
  "re_search example_env ''('' = None
   \<and> match_regex (re_search example_env) ''A'' [''(''] True
   \<and> service_match_regex (re_search example_env) ''A'' [''('']
   \<and> \<not> match_regex (re_search example_env) ''A'' [''(''] False
   \<and> dispatched (check_flux example_env (example_flux\<lparr>regexExclude := Some [''('']\<rparr>)
        (Inr [example_entry ''A'' ''https://e.org/a'' 10]) init_db []) = []
   \<and> length (dispatched (check_flux example_env example_flux
        (Inr [example_entry ''A'' ''https://e.org/a'' 10]) init_db [])) = 1"
  by (simp add: cycle_eval)

section \<open>Properties of the scheduler and of feed creation\<close>

lemma schedule_flux_Some:
  "scheduler svc = Some jobs \<Longrightarrow>
   schedule_flux st svc fl
     = Inr (svc\<lparr>scheduler := Some (jobs((''flux_'' @ ident fl) :=
              Some \<lparr>job_interval = effective_interval st (aggressive_mode svc) fl, job_flux = fl\<rparr>))\<rparr>,
            ''flux_'' @ ident fl, effective_interval st (aggressive_mode svc) fl)"
  by (simp add: schedule_flux_def effective_interval_def Let_def)

lemma reload_loop_jobs:
  assumes "scheduler svc = Some jobs"
  shows "\<exists>jobs'. scheduler (fst (reload_loop st svc ds n errs)) = Some jobs'
      \<and> aggressive_mode (fst (reload_loop st svc ds n errs)) = aggressive_mode svc
      \<and> snd (reload_loop st svc ds n errs) = (n + length ds, errs)
      \<and> (\<forall>k j. jobs' k = Some j \<longrightarrow>
            jobs k = Some j
            \<or> (job_flux j \<in> set ds \<and> k = ''flux_'' @ ident (job_flux j)
               \<and> job_interval j = effective_interval st (aggressive_mode svc) (job_flux j)))
      \<and> (\<forall>k. jobs k \<noteq> None \<longrightarrow> jobs' k \<noteq> None)
      \<and> (\<forall>d \<in> set ds. jobs' (''flux_'' @ ident d) \<noteq> None)"
  using assms
proof (induction ds arbitrary: svc jobs n)
  case Nil
  then show ?case by simp
next
  case (Cons d ds)
  let ?j = "\<lparr>job_interval = effective_interval st (aggressive_mode svc) d, job_flux = d\<rparr>"
  let ?jobs1 = "jobs((''flux_'' @ ident d) := Some ?j)"
  let ?svc1 = "svc\<lparr>scheduler := Some ?jobs1\<rparr>"
  have step: "reload_loop st svc (d # ds) n errs = reload_loop st ?svc1 ds (Suc n) errs"
    by (simp add: schedule_flux_Some [OF Cons.prems])
  have s1: "scheduler ?svc1 = Some ?jobs1" by simp
  from Cons.IH [OF s1, of "Suc n"]
  obtain jobs' where j: "scheduler (fst (reload_loop st ?svc1 ds (Suc n) errs)) = Some jobs'"
    "aggressive_mode (fst (reload_loop st ?svc1 ds (Suc n) errs)) = aggressive_mode ?svc1"
    "snd (reload_loop st ?svc1 ds (Suc n) errs) = (Suc n + length ds, errs)"
    "\<forall>k j. jobs' k = Some j \<longrightarrow>
            ?jobs1 k = Some j
            \<or> (job_flux j \<in> set ds \<and> k = ''flux_'' @ ident (job_flux j)
               \<and> job_interval j = effective_interval st (aggressive_mode ?svc1) (job_flux j))"
    "\<forall>k. ?jobs1 k \<noteq> None \<longrightarrow> jobs' k \<noteq> None"
    "\<forall>d \<in> set ds. jobs' (''flux_'' @ ident d) \<noteq> None"
    by blast
  have a: "\<forall>k j. jobs' k = Some j \<longrightarrow>
            jobs k = Some j
            \<or> (job_flux j \<in> set (d # ds) \<and> k = ''flux_'' @ ident (job_flux j)
               \<and> job_interval j = effective_interval st (aggressive_mode svc) (job_flux j))"
  proof (intro allI impI)
    fix k j assume kj: "jobs' k = Some j"
    with j(4) have "?jobs1 k = Some j
            \<or> (job_flux j \<in> set ds \<and> k = ''flux_'' @ ident (job_flux j)
               \<and> job_interval j = effective_interval st (aggressive_mode svc) (job_flux j))"
      by simp
    then show "jobs k = Some j
            \<or> (job_flux j \<in> set (d # ds) \<and> k = ''flux_'' @ ident (job_flux j)
               \<and> job_interval j = effective_interval st (aggressive_mode svc) (job_flux j))"
      by (cases "k = ''flux_'' @ ident d") auto
  qed
  have b: "\<forall>k. jobs k \<noteq> None \<longrightarrow> jobs' k \<noteq> None"
    using j(5) by auto
  have c: "\<forall>x \<in> set (d # ds). jobs' (''flux_'' @ ident x) \<noteq> None"
    using j(5,6) by auto
  from j(1,2,3) a b c show ?case
    unfolding step by (intro exI [of _ jobs']) simp
qed

text \<open>
  C7.  A feed scheduled while the aggressive-mode flag is set gets a timer of 10
  seconds whatever its configured interval; scheduled while the flag is off, it gets
  its own configured interval, or the configured default when its interval is 0.
  Setting the flag on an initialised service reloads the schedules: afterwards the
  flag has the new value, every installed job belongs to an active feed of the
  collection and has the effective interval of that feed under the new flag, and every
  active feed has a job.
\<close>

theorem C7_effective_interval:
  "(scheduler svc \<noteq> None \<longrightarrow>
      (\<exists>svc'. schedule_flux st svc fl = Inr (svc', ''flux_'' @ ident fl, effective_interval st (aggressive_mode svc) fl)
         \<and> installed_interval \<lparr>fluxes = fs, service = svc'\<rparr> (ident fl)
             = Some (effective_interval st (aggressive_mode svc) fl)))
   \<and> effective_interval st True fl = 10
   \<and> effective_interval st False fl = (if interval fl = 0 then default_check_interval st else interval fl)
   \<and> (scheduler (service a) \<noteq> None \<and> collection (service a) \<noteq> None \<longrightarrow>
        snd (set_aggressive_mode st a enabled) = Inr (enabled, length (filter active (fluxes a)))
        \<and> aggressive_mode (service (fst (set_aggressive_mode st a enabled))) = enabled
        \<and> (\<exists>jobs'. scheduler (service (fst (set_aggressive_mode st a enabled))) = Some jobs'
             \<and> (\<forall>k j. jobs' k = Some j \<longrightarrow>
                   job_flux j \<in> set (filter active (fluxes a)) \<and> k = ''flux_'' @ ident (job_flux j)
                   \<and> job_interval j = effective_interval st enabled (job_flux j))
             \<and> (\<forall>d \<in> set (filter active (fluxes a)). jobs' (''flux_'' @ ident d) \<noteq> None)))"
proof -
  have one: "scheduler svc \<noteq> None \<longrightarrow>
      (\<exists>svc'. schedule_flux st svc fl = Inr (svc', ''flux_'' @ ident fl, effective_interval st (aggressive_mode svc) fl)
         \<and> installed_interval \<lparr>fluxes = fs, service = svc'\<rparr> (ident fl)
             = Some (effective_interval st (aggressive_mode svc) fl))"
  proof
    assume "scheduler svc \<noteq> None"
    then obtain jobs where jobs: "scheduler svc = Some jobs" by blast
    show "\<exists>svc'. schedule_flux st svc fl = Inr (svc', ''flux_'' @ ident fl, effective_interval st (aggressive_mode svc) fl)
         \<and> installed_interval \<lparr>fluxes = fs, service = svc'\<rparr> (ident fl)
             = Some (effective_interval st (aggressive_mode svc) fl)"
      unfolding schedule_flux_Some [OF jobs] by (simp add: installed_interval_def)
  qed
  have two: "effective_interval st True fl = 10"
    "effective_interval st False fl = (if interval fl = 0 then default_check_interval st else interval fl)"
    by (simp_all add: effective_interval_def)
  have three: "scheduler (service a) \<noteq> None \<and> collection (service a) \<noteq> None \<longrightarrow>
        snd (set_aggressive_mode st a enabled) = Inr (enabled, length (filter active (fluxes a)))
        \<and> aggressive_mode (service (fst (set_aggressive_mode st a enabled))) = enabled
        \<and> (\<exists>jobs'. scheduler (service (fst (set_aggressive_mode st a enabled))) = Some jobs'
             \<and> (\<forall>k j. jobs' k = Some j \<longrightarrow>
                   job_flux j \<in> set (filter active (fluxes a)) \<and> k = ''flux_'' @ ident (job_flux j)
                   \<and> job_interval j = effective_interval st enabled (job_flux j))
             \<and> (\<forall>d \<in> set (filter active (fluxes a)). jobs' (''flux_'' @ ident d) \<noteq> None))"
  proof
    assume init: "scheduler (service a) \<noteq> None \<and> collection (service a) \<noteq> None"
    then obtain jobs h where jobs: "scheduler (service a) = Some jobs" and h: "collection (service a) = Some h"
      by blast
    let ?svc0 = "(service a)\<lparr>aggressive_mode := enabled, scheduler := Some (\<lambda>k. None)\<rparr>"
    let ?ds = "filter active (fluxes a)"
    let ?r = "reload_loop st ?svc0 ?ds 0 []"
    have s0: "scheduler ?svc0 = Some (\<lambda>k. None)" by simp
    from reload_loop_jobs [OF s0, of st ?ds 0 "[]"]
    obtain jobs' where j: "scheduler (fst ?r) = Some jobs'"
      "aggressive_mode (fst ?r) = enabled"
      "snd ?r = (length ?ds, [])"
      "\<forall>k j. jobs' k = Some j \<longrightarrow>
            (job_flux j \<in> set ?ds \<and> k = ''flux_'' @ ident (job_flux j)
               \<and> job_interval j = effective_interval st enabled (job_flux j))"
      "\<forall>d \<in> set ?ds. jobs' (''flux_'' @ ident d) \<noteq> None"
      by auto
    have res: "set_aggressive_mode st a enabled
        = (a\<lparr>service := fst ?r\<rparr>, Inr (aggressive_mode (fst ?r), fst (snd ?r)))"
      by (simp add: set_aggressive_mode_def reload_all_schedules_def jobs h Let_def)
    from j show "snd (set_aggressive_mode st a enabled) = Inr (enabled, length (filter active (fluxes a)))
        \<and> aggressive_mode (service (fst (set_aggressive_mode st a enabled))) = enabled
        \<and> (\<exists>jobs'. scheduler (service (fst (set_aggressive_mode st a enabled))) = Some jobs'
             \<and> (\<forall>k j. jobs' k = Some j \<longrightarrow>
                   job_flux j \<in> set (filter active (fluxes a)) \<and> k = ''flux_'' @ ident (job_flux j)
                   \<and> job_interval j = effective_interval st enabled (job_flux j))
             \<and> (\<forall>d \<in> set (filter active (fluxes a)). jobs' (''flux_'' @ ident d) \<noteq> None))"
      unfolding res by simp
  qed
  from one two three show ?thesis by blast
qed

theorem C7_witness:
  "scheduler (service example_app) \<noteq> None
   \<and> collection (service example_app) \<noteq> None
   \<and> snd (set_aggressive_mode default_settings example_app True) = Inr (True, 2)
   \<and> map (installed_interval (fst (set_aggressive_mode default_settings example_app True))) [''a'', ''b'', ''c'']
       = [Some 10, Some 10, None]
   \<and> map (installed_interval (fst (set_aggressive_mode default_settings
            (fst (set_aggressive_mode default_settings example_app True)) False))) [''a'', ''b'', ''c'']
       = [Some 600, Some 300, None]"
proof -
  have h: "scheduler (service example_app) \<noteq> None \<and> collection (service example_app) \<noteq> None"
    by (simp add: example_app_def started_app_def)
  have n: "length (filter active (fluxes example_app)) = 2"
    by (simp add: example_app_def started_app_def example_flux_def)
  from C7_effective_interval [of _ default_settings _ _ example_app True] h
  have r: "snd (set_aggressive_mode default_settings example_app True)
      = Inr (True, length (filter active (fluxes example_app)))"
    by blast
  have e: "map (installed_interval (fst (set_aggressive_mode default_settings example_app True))) [''a'', ''b'', ''c'']
     = [Some 10, Some 10, None]
   \<and> map (installed_interval (fst (set_aggressive_mode default_settings
            (fst (set_aggressive_mode default_settings example_app True)) False))) [''a'', ''b'', ''c'']
     = [Some 600, Some 300, None]"
    by (simp add: set_aggressive_mode_def reload_all_schedules_def example_app_def started_app_def
        example_flux_def schedule_flux_def installed_interval_def default_settings_def Let_def)
  from h r e show ?thesis unfolding n by blast
qed

text \<open>
  C6.  \<open>create_flux\<close> on the started application, aggressive mode off, with a feed whose
  interval is 10 seconds and whose Discord target is valid: the request succeeds, the
  stored document keeps the interval 10 and the feed's timer is installed with 10
  seconds.  No step of the creation compares the interval with 60.
\<close>

theorem C6_create_accepts_short_interval:
  "snd (create_flux default_settings ''abc'' started_app (example_flux\<lparr>interval := 10\<rparr>)) = Inr ''abc''
   \<and> map interval (fluxes (fst (create_flux default_settings ''abc'' started_app (example_flux\<lparr>interval := 10\<rparr>)))) = [10]
   \<and> aggressive_mode (service started_app) = False
   \<and> installed_interval (fst (create_flux default_settings ''abc'' started_app (example_flux\<lparr>interval := 10\<rparr>))) ''abc'' = Some 10"
  by (simp add: create_flux_def started_app_def example_flux_def isValidDiscordId_def digit_of_def
      schedule_flux_def installed_interval_def default_settings_def resolve_def resolve_body_def Let_def)

end
